theory Spec2Isabelle
  imports Main "HOL-Library.Word"
begin

section \<open>Data model of getplanes.py\<close>

text \<open>
  The program drives a remote web page and keeps a count of purchased airframes.
  Python exceptions are values of \<open>exc\<close>; an operation that may raise returns the
  exception next to the state it leaves behind. \<open>WebDriverException\<close> stands for what
  selenium raises: an element that is not found, a wait that times out.
\<close>

datatype exc = ValueError | IndexError | KeyError | OverflowError | WebDriverException

text \<open>
  A cell of text, as the spreadsheet and an object column hold it: text that Python's
  \<open>int\<close> reads as a number, or text that it rejects.
\<close>

datatype cell = Num int | Txt string

text \<open>
  A value of the "Hours flown" column as \<open>pd.read_html\<close> holds it: in a column of 64-bit
  integers, signed or unsigned; in a column of floats, as a finite float (mantissa
  \<open>m\<close> and exponent \<open>e\<close> for the value \<open>m * 2 ^ e\<close>) or as NaN; or in an object column,
  as text.
\<close>

datatype hours_value =
    Int64 "64 word"
  | UInt64 "64 word"
  | Float64 int int
  | NaN
  | Obj cell

text \<open>
  A link of the results table: the link of an offer that opens its lease quote, or a link
  of the pager to a result page.
\<close>

datatype anchor = LeaseLink | PageLink nat

text \<open>
  A row of the results table below the header row: its value in the hours column, the
  rest of its text, and the links it holds.
\<close>

record raw_row =
  hours_cell :: hours_value
  descr :: string
  anchors :: "anchor list"

type_synonym page_table = "raw_row list"

type_synonym listing = "page_table list"

text \<open>A row of the indexed data frame: the multi-index (pagenum, index) and the hours.\<close>

record lease =
  pagenum :: nat
  rowidx :: nat
  hours :: int
  info :: string

text \<open>
  Every action the program performs on the remote page, in order, and every call of
  \<open>purchase_aircraft\<close> with its arguments.
\<close>

datatype ui_action =
    GotoLeases
  | SelectByValue string
  | ClickApplyFilter
  | ClickPagerLink nat
  | PurchaseCall int int
  | ClickTableLink nat

subsection \<open>Python list indexing\<close>

text \<open>
  \<open>xs[i]\<close>: a negative index counts from the end, and an index outside the list raises
  IndexError. The position found is returned with the element.
\<close>

definition py_index :: "'a list \<Rightarrow> int \<Rightarrow> exc + (nat \<times> 'a)" where
  "py_index xs i =
     (if 0 \<le> i \<and> i < int (length xs) then Inr (nat i, xs ! nat i)
      else if i < 0 \<and> 0 \<le> int (length xs) + i
        then Inr (nat (int (length xs) + i), xs ! nat (int (length xs) + i))
      else Inl IndexError)"

subsection \<open>LeaseStrainer.get_table\<close>

text \<open>\<open>df.drop(df.tail(1).index)\<close>: the last row of the parsed table is dropped.\<close>

definition get_table :: "page_table \<Rightarrow> page_table" where
  "get_table rows = butlast rows"

subsection \<open>The remote site and the browser\<close>

text \<open>
  The remote site is outside the program. It offers options (label, value) in the filter
  control, shows a listing of result pages for each option value once the filter is
  applied, and shows a listing of its own on the leases page before any filter.
\<close>

record site =
  options :: "(string \<times> string) list"
  listing_of :: "string \<Rightarrow> listing"
  unfiltered :: listing

text \<open>
  The state of a \<open>BrowserAgent\<close>: what it has done so far, the listing its browser is
  in and the number of the result page it shows. A page number with no page, or an empty
  listing, is a browser that shows no results table.
\<close>

record browser =
  history :: "ui_action list"
  table_listing :: listing
  page_index :: nat

definition page_source :: "browser \<Rightarrow> page_table option" where
  "page_source d =
     (if page_index d < length (table_listing d) then Some (table_listing d ! page_index d)
      else None)"

text \<open>
  A click on a link: a pager link loads its result page; the link of an offer leaves the
  listing for the quote page of the offer.
\<close>

fun click :: "anchor \<Rightarrow> browser \<Rightarrow> browser" where
  "click (PageLink target) d = d\<lparr>page_index := target\<rparr>"
| "click LeaseLink d = d\<lparr>table_listing := []\<rparr>"

text \<open>
  \<open>{x.text: x.get_attribute("value") for x in selection_list.options}\<close>: a later option
  with the same label overwrites an earlier one.
\<close>

definition available_airframes :: "site \<Rightarrow> string \<rightharpoonup> string" where
  "available_airframes S = map_of (rev (options S))"

subsection \<open>BrowserAgent.goto_leases\<close>

definition goto_leases :: "site \<Rightarrow> browser \<Rightarrow> browser" where
  "goto_leases S d =
     d\<lparr>history := history d @ [GotoLeases], table_listing := unfiltered S, page_index := 0\<rparr>"

subsection \<open>BrowserAgent._get_navbar\<close>

text \<open>
  The links of the last row of the table shown; \<open>find_element\<close> raises when the page has
  no table. A table with nothing below its header row has no link there.
\<close>

definition get_navbar :: "browser \<Rightarrow> exc + anchor list" where
  "get_navbar d =
     (case page_source d of
        None \<Rightarrow> Inl WebDriverException
      | Some table \<Rightarrow> Inr (if table = [] then [] else anchors (last table)))"

subsection \<open>BrowserAgent.get_leases\<close>

text \<open>
  The loop \<open>for idx in range(len(pages))\<close>: the pager is read again on the page now
  shown, its link number \<open>idx\<close> is clicked (IndexError when there is none), the wait for
  the table times out when no results table comes up, and the table of the page reached
  is appended.
\<close>

fun collect_pages ::
  "nat list \<Rightarrow> page_table list \<Rightarrow> browser \<Rightarrow> (exc + page_table list) \<times> browser" where
  "collect_pages [] tables d = (Inr tables, d)"
| "collect_pages (idx # idxs) tables d =
     (case get_navbar d of
        Inl e \<Rightarrow> (Inl e, d)
      | Inr navbar \<Rightarrow>
          if idx < length navbar then
            (let d1 = click (navbar ! idx) (d\<lparr>history := history d @ [ClickPagerLink idx]\<rparr>) in
             case page_source d1 of
               None \<Rightarrow> (Inl WebDriverException, d1)
             | Some table \<Rightarrow> collect_pages idxs (tables @ [get_table table]) d1)
          else (Inl IndexError, d))"

definition get_leases ::
  "site \<Rightarrow> string \<Rightarrow> browser \<Rightarrow> (exc + page_table list option) \<times> browser" where
  "get_leases S airframe d =
     (case available_airframes S airframe of
        None \<Rightarrow> (Inr None, d)
      | Some v \<Rightarrow>
          (let d1 = d\<lparr>history := history d @ [SelectByValue v, ClickApplyFilter],
                      table_listing := listing_of S v, page_index := 0\<rparr> in
           case page_source d1 of
             None \<Rightarrow> (Inl WebDriverException, d1)
           | Some first \<Rightarrow>
               (case get_navbar d1 of
                  Inl e \<Rightarrow> (Inl e, d1)
                | Inr pages \<Rightarrow>
                    (case collect_pages [0..<length pages] [get_table first] d1 of
                       (Inl e, d2) \<Rightarrow> (Inl e, d2)
                     | (Inr tables, d2) \<Rightarrow> (Inr (Some tables), d2)))))"

subsection \<open>BrowserAgent.get_lease_page\<close>

definition get_lease_page ::
  "site \<Rightarrow> string \<Rightarrow> browser \<Rightarrow> (exc + page_table option) \<times> browser" where
  "get_lease_page S airframe d =
     (case available_airframes S airframe of
        None \<Rightarrow> (Inr None, d)
      | Some v \<Rightarrow>
          (let d1 = d\<lparr>history := history d @ [SelectByValue v, ClickApplyFilter],
                      table_listing := listing_of S v, page_index := 0\<rparr> in
           case page_source d1 of
             None \<Rightarrow> (Inl WebDriverException, d1)
           | Some first \<Rightarrow> (Inr (Some (get_table first)), d1)))"

subsection \<open>BrowserAgent._goto_page\<close>

text \<open>
  \<open>if not links: return\<close>, then \<open>links[pagenum - 1]\<close> is clicked and the table awaited.
\<close>

definition goto_page :: "int \<Rightarrow> browser \<Rightarrow> exc option \<times> browser" where
  "goto_page pnum d =
     (case get_navbar d of
        Inl e \<Rightarrow> (Some e, d)
      | Inr links \<Rightarrow>
          if links = [] then (None, d)
          else
            (case py_index links (pnum - 1) of
               Inl e \<Rightarrow> (Some e, d)
             | Inr (i, link) \<Rightarrow>
                 (let d1 = click link (d\<lparr>history := history d @ [ClickPagerLink i]\<rparr>) in
                  case page_source d1 of
                    None \<Rightarrow> (Some WebDriverException, d1)
                  | Some table \<Rightarrow> (None, d1))))"

subsection \<open>BrowserAgent.purchase_aircraft\<close>

fun is_purchase :: "ui_action \<Rightarrow> bool" where
  "is_purchase (PurchaseCall p r) = True"
| "is_purchase _ = False"

definition purchase_calls :: "ui_action list \<Rightarrow> ui_action list" where
  "purchase_calls acts = filter is_purchase acts"

text \<open>
  The call is recorded with its arguments. With a page argument that is not negative the
  pager is used first. Then \<open>table.find_elements(By.TAG_NAME, "a")[rownum - 1]\<close> takes
  a link among all the links of the table shown, in the order of the rows, and clicks it.
  The quote control comes up only behind the link of an offer; whether the quote, the
  prepay option and the acceptance control then follow is the remote site's: \<open>ok n\<close>
  tells it for the call made after \<open>n\<close> earlier ones. At the end \<open>goto_leases\<close> is
  called.
\<close>

definition purchase_aircraft ::
  "site \<Rightarrow> (nat \<Rightarrow> bool) \<Rightarrow> int \<Rightarrow> int \<Rightarrow> browser \<Rightarrow> exc option \<times> browser" where
  "purchase_aircraft S ok pnum rnum d =
     (case (if 0 \<le> pnum then goto_page pnum (d\<lparr>history := history d @ [PurchaseCall pnum rnum]\<rparr>)
            else (None, d\<lparr>history := history d @ [PurchaseCall pnum rnum]\<rparr>)) of
        (Some e, d1) \<Rightarrow> (Some e, d1)
      | (None, d1) \<Rightarrow>
          (case page_source d1 of
             None \<Rightarrow> (Some WebDriverException, d1)
           | Some table \<Rightarrow>
               (case py_index (concat (map anchors table)) (rnum - 1) of
                  Inl e \<Rightarrow> (Some e, d1)
                | Inr (i, link) \<Rightarrow>
                    (let d2 = click link (d1\<lparr>history := history d1 @ [ClickTableLink i]\<rparr>) in
                     if link = LeaseLink \<and> ok (length (purchase_calls (history d)))
                     then (None, goto_leases S d2)
                     else (Some WebDriverException, d2)))))"

subsection \<open>build_table_index\<close>

text \<open>
  \<open>astype(int)\<close> makes 64-bit signed integers. A column of integers is read bit for bit,
  so an unsigned value of \<open>2 ^ 63\<close> or more comes out negative. A finite float is cut
  towards zero, and outside the range the conversion yields the lowest integer, as the
  x86-64 conversion does; NaN raises a ValueError. In an object column, text that is not
  an integer raises ValueError and an integer outside the range raises OverflowError.
\<close>

definition float_to_int64 :: "int \<Rightarrow> int \<Rightarrow> int" where
  "float_to_int64 m e =
     (let t = (if 0 \<le> e then m * 2 ^ nat e
               else if 0 \<le> m then m div 2 ^ nat (- e)
               else - ((- m) div 2 ^ nat (- e)))
      in if - (2 ^ 63) \<le> t \<and> t < 2 ^ 63 then t else - (2 ^ 63))"

fun astype_int :: "hours_value \<Rightarrow> exc + int" where
  "astype_int (Int64 w) = Inr (sint w)"
| "astype_int (UInt64 w) = Inr (sint w)"
| "astype_int (Float64 m e) = Inr (float_to_int64 m e)"
| "astype_int NaN = Inl ValueError"
| "astype_int (Obj (Num n)) =
     (if - (2 ^ 63) \<le> n \<and> n < 2 ^ 63 then Inr n else Inl OverflowError)"
| "astype_int (Obj (Txt s)) = Inl ValueError"

text \<open>
  \<open>newindex\<close> repeats the position of each table as often as the table has rows;
  \<open>pd.concat\<close> keeps every row with its index within its own table and raises
  ValueError when it is given no table; the conversion of the column stops at the first
  value it cannot convert.
\<close>

definition newindex :: "page_table list \<Rightarrow> nat list" where
  "newindex dfs = concat (map (\<lambda>(i, x). replicate (length x) i) (enumerate 0 dfs))"

definition pd_concat :: "page_table list \<Rightarrow> exc + (nat \<times> raw_row) list" where
  "pd_concat dfs = (if dfs = [] then Inl ValueError else Inr (concat (map (enumerate 0) dfs)))"

fun coerce_hours :: "(nat \<times> nat \<times> raw_row) list \<Rightarrow> exc + lease list" where
  "coerce_hours [] = Inr []"
| "coerce_hours ((p, k, r) # rest) =
     (case astype_int (hours_cell r) of
        Inl e \<Rightarrow> Inl e
      | Inr h \<Rightarrow>
          (case coerce_hours rest of
             Inl e \<Rightarrow> Inl e
           | Inr ls \<Rightarrow> Inr (\<lparr>pagenum = p, rowidx = k, hours = h, info = descr r\<rparr> # ls)))"

definition build_table_index :: "page_table list \<Rightarrow> exc + lease list" where
  "build_table_index dfs =
     (case pd_concat dfs of
        Inl e \<Rightarrow> Inl e
      | Inr df \<Rightarrow> coerce_hours (zip (newindex dfs) df))"

section \<open>The counter store\<close>

text \<open>
  \<open>airframe_count\<close> is what \<open>pickle.load\<close> returns when the file exists, and a
  \<open>collections.defaultdict(int)\<close> otherwise. A pickle holds the dictionary with its
  kind: a defaultdict answers a missing key with 0 and stores it, a plain dict raises
  KeyError.
\<close>

datatype counter = DefaultDict "string \<rightharpoonup> int" | PlainDict "string \<rightharpoonup> int"

type_synonym files = "string \<rightharpoonup> counter"

fun getitem :: "counter \<Rightarrow> string \<Rightarrow> exc + (int \<times> counter)" where
  "getitem (DefaultDict m) k =
     (case m k of Some v \<Rightarrow> Inr (v, DefaultDict m) | None \<Rightarrow> Inr (0, DefaultDict (m(k \<mapsto> 0))))"
| "getitem (PlainDict m) k =
     (case m k of Some v \<Rightarrow> Inr (v, PlainDict m) | None \<Rightarrow> Inl KeyError)"

fun setitem :: "counter \<Rightarrow> string \<Rightarrow> int \<Rightarrow> counter" where
  "setitem (DefaultDict m) k v = DefaultDict (m(k \<mapsto> v))"
| "setitem (PlainDict m) k v = PlainDict (m(k \<mapsto> v))"

definition increment :: "counter \<Rightarrow> string \<Rightarrow> exc + counter" where
  "increment c k =
     (case getitem c k of Inl e \<Rightarrow> Inl e | Inr (v, c1) \<Rightarrow> Inr (setitem c1 k (v + 1)))"

text \<open>The count recorded for a key, for reading a store in a statement.\<close>

fun entries :: "counter \<Rightarrow> string \<rightharpoonup> int" where
  "entries (DefaultDict m) = m"
| "entries (PlainDict m) = m"

definition count_of :: "counter \<Rightarrow> string \<Rightarrow> int" where
  "count_of c k = (case entries c k of Some v \<Rightarrow> v | None \<Rightarrow> 0)"

text \<open>
  The files on disk, by name. Start-up reads \<open>count.pickle\<close>; after a purchase the
  store is written to \<open>filename.pickle\<close>, replacing what the file held.
\<close>

definition load_count :: "files \<Rightarrow> counter" where
  "load_count fs =
     (case fs ''count.pickle'' of Some c \<Rightarrow> c | None \<Rightarrow> DefaultDict Map.empty)"

definition dump_count :: "counter \<Rightarrow> files \<Rightarrow> files" where
  "dump_count c fs = fs(''filename.pickle'' \<mapsto> c)"

section \<open>Monitor mode\<close>

text \<open>
  A row of the spreadsheet. \<open>get_all_values\<close> returns text, which the program reads
  with \<open>int(...)\<close> where it needs a number.
\<close>

record rule =
  aircraft_type :: string
  maximum_airframes :: cell
  maximum_hours :: cell

fun py_int :: "cell \<Rightarrow> exc + int" where
  "py_int (Num n) = Inr n"
| "py_int (Txt s) = Inl ValueError"

text \<open>
  The state of \<open>main\<close>: the counter, the files, the browser of the current
  \<open>BrowserAgent\<close> (its history goes on from one agent to the next, so that it holds
  all the process has done), the number of \<open>BrowserAgent\<close> objects constructed, and
  whether the current one is logged in.
\<close>

record mon_state =
  airframe_count :: counter
  files :: files
  driver :: browser
  agents :: nat
  logged_in :: bool

subsection \<open>The purchase loops of main\<close>

text \<open>
  \<open>for j, lease in df.iterrows()\<close>: every row of the frame is purchased with the
  arguments \<open>j[0] + 1\<close> and \<open>j[1] + 1\<close>; after each purchase the count is
  incremented and the store written to disk. An exception leaves the loop.
\<close>

fun purchase_each ::
  "site \<Rightarrow> (nat \<Rightarrow> bool) \<Rightarrow> string \<Rightarrow> lease list \<Rightarrow> mon_state \<Rightarrow> exc option \<times> mon_state" where
  "purchase_each S ok t [] s = (None, s)"
| "purchase_each S ok t (l # ls) s =
     (case purchase_aircraft S ok (int (pagenum l) + 1) (int (rowidx l) + 1) (driver s) of
        (Some e, d) \<Rightarrow> (Some e, s\<lparr>driver := d\<rparr>)
      | (None, d) \<Rightarrow>
          (case increment (airframe_count s) t of
             Inl e \<Rightarrow> (Some e, s\<lparr>driver := d\<rparr>)
           | Inr c \<Rightarrow>
               purchase_each S ok t ls
                 (s\<lparr>driver := d, airframe_count := c, files := dump_count c (files s)\<rparr>)))"

definition filter_hours :: "int \<Rightarrow> lease list \<Rightarrow> lease list" where
  "filter_hours h df = filter (\<lambda>l. hours l < h) df"

text \<open>How far the count is below the maximum: the measure of the while loop.\<close>

definition remaining :: "rule \<Rightarrow> mon_state \<Rightarrow> nat" where
  "remaining r s =
     (case py_int (maximum_airframes r) of
        Inl e \<Rightarrow> 0
      | Inr m \<Rightarrow> nat (m - count_of (airframe_count s) (aircraft_type r)))"

lemma getitem_count_of:
  "getitem c k = Inr (v, c1) \<Longrightarrow> v = count_of c k \<and> count_of c1 j = count_of c j"
  by (cases c) (auto simp: count_of_def split: option.splits if_splits)

lemma increment_count_of:
  "increment c k = Inr c1 \<Longrightarrow> count_of c1 k = count_of c k + 1"
  by (cases c) (auto simp: increment_def count_of_def split: option.splits)

lemma purchase_each_count:
  "purchase_each S ok t df s = (None, s1) \<Longrightarrow>
     count_of (airframe_count s1) t = count_of (airframe_count s) t + int (length df)"
proof (induction df arbitrary: s)
  case Nil
  then show ?case by simp
next
  case (Cons l ls)
  obtain x d where p:
    "purchase_aircraft S ok (int (pagenum l) + 1) (int (rowidx l) + 1) (driver s) = (x, d)"
    by (cases "purchase_aircraft S ok (int (pagenum l) + 1) (int (rowidx l) + 1) (driver s)")
  show ?case
  proof (cases x)
    case (Some e)
    with p Cons.prems show ?thesis by simp
  next
    case None
    show ?thesis
    proof (cases "increment (airframe_count s) t")
      case (Inl e)
      with p None Cons.prems show ?thesis by simp
    next
      case (Inr c)
      let ?s = "s\<lparr>driver := d, airframe_count := c, files := dump_count c (files s)\<rparr>"
      from p None Inr Cons.prems have "purchase_each S ok t ls ?s = (None, s1)" by simp
      from Cons.IH [OF this] increment_count_of [OF Inr] show ?thesis by simp
    qed
  qed
qed

text \<open>
  \<open>while airframe_count[type] < int(row["Maximum Airframes"])\<close>: filter, leave when
  nothing is left, sort with \<open>df.sort_values("Hours flown")\<close>, purchase every row.
  \<open>sort_values\<close> is pandas' own; it is the parameter \<open>srt\<close>.
\<close>

function quota_loop ::
  "(lease list \<Rightarrow> lease list) \<Rightarrow> site \<Rightarrow> (nat \<Rightarrow> bool) \<Rightarrow> rule \<Rightarrow> lease list \<Rightarrow> mon_state
    \<Rightarrow> exc option \<times> mon_state" where
  "quota_loop srt S ok r df s =
     (case getitem (airframe_count s) (aircraft_type r) of
        Inl e \<Rightarrow> (Some e, s)
      | Inr (c, cnt) \<Rightarrow>
          (let s1 = s\<lparr>airframe_count := cnt\<rparr> in
           case py_int (maximum_airframes r) of
             Inl e \<Rightarrow> (Some e, s1)
           | Inr m \<Rightarrow>
               if c < m then
                 (case py_int (maximum_hours r) of
                    Inl e \<Rightarrow> (Some e, s1)
                  | Inr h \<Rightarrow>
                      (let df1 = filter_hours h df in
                       if length df1 \<le> 0 then (None, s1)
                       else
                         (let df2 = srt df1 in
                          case purchase_each S ok (aircraft_type r) df2 s1 of
                            (Some e, s2) \<Rightarrow> (Some e, s2)
                          | (None, s2) \<Rightarrow> quota_loop srt S ok r df2 s2)))
               else (None, s1)))"
  by pat_completeness auto
termination
proof (relation "measures [\<lambda>(srt, S, ok, r, df, s). remaining r s,
                           \<lambda>(srt, S, ok, r, df, s). length df]", goal_cases)
  case 1
  show ?case by simp
next
  case (2 srt S ok r df s b c cnt s1 m h df1 df2 x s2)
  let ?t = "aircraft_type r"
  from 2 have get: "getitem (airframe_count s) ?t = Inr (c, cnt)" by simp
  from getitem_count_of [OF get, of ?t]
  have c: "c = count_of (airframe_count s) ?t" and cnt: "count_of cnt ?t = count_of (airframe_count s) ?t"
    by simp_all
  from 2 have run: "purchase_each S ok ?t df2 (s\<lparr>airframe_count := cnt\<rparr>) = (None, s2)"
    by simp
  from purchase_each_count [OF run] cnt
  have grow: "count_of (airframe_count s2) ?t = count_of (airframe_count s) ?t + int (length df2)"
    by simp
  from 2 have ne: "df \<noteq> []" by (auto simp: filter_hours_def)
  show ?case
  proof (cases "df2 = []")
    case True
    with grow ne 2 show ?thesis by (simp add: remaining_def)
  next
    case False
    then have "0 < length df2" by simp
    with grow c 2 show ?thesis by (simp add: remaining_def)
  qed
qed

declare quota_loop.simps [simp del]

subsection \<open>The body of main for one row of the spreadsheet\<close>

text \<open>
  Lines 330 to 358: refresh the leases page, read the leases of the type, skip the row
  when \<open>not tables\<close>, index the tables, and run the while loop. No exception is caught
  here.
\<close>

definition monitor_rule ::
  "(lease list \<Rightarrow> lease list) \<Rightarrow> (nat \<Rightarrow> bool) \<Rightarrow> site \<Rightarrow> rule \<Rightarrow> mon_state
    \<Rightarrow> exc option \<times> mon_state" where
  "monitor_rule srt ok S r s =
     (case get_leases S (aircraft_type r) (goto_leases S (driver s)) of
        (Inl e, d) \<Rightarrow> (Some e, s\<lparr>driver := d\<rparr>)
      | (Inr None, d) \<Rightarrow> (None, s\<lparr>driver := d\<rparr>)
      | (Inr (Some tables), d) \<Rightarrow>
          if tables = [] then (None, s\<lparr>driver := d\<rparr>)
          else
            (case build_table_index tables of
               Inl e \<Rightarrow> (Some e, s\<lparr>driver := d\<rparr>)
             | Inr df \<Rightarrow> quota_loop srt S ok r df (s\<lparr>driver := d\<rparr>)))"

text \<open>
  \<open>for i, row in desired_leases.iterrows()\<close>; each row comes with the remote site as it
  stands when the row is served.
\<close>

fun monitor_rules ::
  "(lease list \<Rightarrow> lease list) \<Rightarrow> (nat \<Rightarrow> bool) \<Rightarrow> (rule \<times> site) list \<Rightarrow> mon_state
    \<Rightarrow> exc option \<times> mon_state" where
  "monitor_rules srt ok [] s = (None, s)"
| "monitor_rules srt ok ((r, S) # rest) s =
     (case monitor_rule srt ok S r s of
        (Some e, s1) \<Rightarrow> (Some e, s1)
      | (None, s1) \<Rightarrow> monitor_rules srt ok rest s1)"

subsection \<open>main\<close>

text \<open>
  What the environment supplies for one turn of \<open>main\<close>: whether a login succeeds, the
  spreadsheet rows with the site, the outcome of the purchase workflows, and whether the
  refresh time of the user agent has passed after the pass over the rows. The clocks
  themselves are not modelled.
\<close>

record turn =
  login_ok :: bool
  desired_leases :: "(rule \<times> site) list"
  purchase_ok :: "nat \<Rightarrow> bool"
  refresh_due :: bool

definition startup :: "files \<Rightarrow> mon_state" where
  "startup fs =
     \<lparr>airframe_count = load_count fs, files = fs,
      driver = \<lparr>history = [], table_listing = [], page_index = 0\<rparr>,
      agents = 0, logged_in = False\<rparr>"

text \<open>
  One turn of \<open>while True: try: ... except Exception: continue\<close>. Without a session a
  \<open>BrowserAgent\<close> is constructed, whose browser shows nothing yet, and logs in; a
  failure is caught and the loop starts over. With a session one pass over the rows runs;
  an exception raised anywhere in it is caught by the same handler, which goes back to
  constructing a \<open>BrowserAgent\<close>.
\<close>

definition main_turn :: "(lease list \<Rightarrow> lease list) \<Rightarrow> turn \<Rightarrow> mon_state \<Rightarrow> mon_state" where
  "main_turn srt e s =
     (if \<not> logged_in s
      then s\<lparr>agents := agents s + 1, logged_in := login_ok e,
              driver := (driver s)\<lparr>table_listing := [], page_index := 0\<rparr>\<rparr>
      else
        (case monitor_rules srt (purchase_ok e) (desired_leases e) s of
           (Some x, s1) \<Rightarrow> s1\<lparr>logged_in := False\<rparr>
         | (None, s1) \<Rightarrow> s1\<lparr>logged_in := \<not> refresh_due e\<rparr>))"

fun main_loop :: "(lease list \<Rightarrow> lease list) \<Rightarrow> turn list \<Rightarrow> mon_state \<Rightarrow> mon_state" where
  "main_loop srt [] s = s"
| "main_loop srt (e # es) s = main_loop srt es (main_turn srt e s)"

definition main :: "(lease list \<Rightarrow> lease list) \<Rightarrow> files \<Rightarrow> turn list \<Rightarrow> mon_state" where
  "main srt fs es = main_loop srt es (startup fs)"

section \<open>Saturation mode\<close>

text \<open>
  The state of \<open>launch_agent\<close>: the local \<open>purchases\<close>, the agents constructed, whether
  control is in the inner loop (a driver is logged in), and the browser.
\<close>

record agent =
  purchases :: int
  built :: nat
  in_session :: bool
  webdriver :: browser

text \<open>
  What the environment supplies for one turn of the worker: whether a login succeeds,
  whether \<open>goto_leases\<close> succeeds, the site, and whether the purchase workflow, once the
  link of an offer is clicked, runs to its end.
\<close>

record pass =
  agent_login_ok :: bool
  goto_ok :: bool
  shown :: site
  buy_ok :: bool

text \<open>
  The body of the inner loop (lines 374 to 388): every exception is caught there, and the
  loop goes on with the same driver.
\<close>

definition agent_pass :: "string \<Rightarrow> pass \<Rightarrow> agent \<Rightarrow> agent" where
  "agent_pass atype e a =
     (if \<not> goto_ok e then a
      else
        (case get_lease_page (shown e) atype (goto_leases (shown e) (webdriver a)) of
           (Inl x, d) \<Rightarrow> a\<lparr>webdriver := d\<rparr>
         | (Inr None, d) \<Rightarrow> a\<lparr>webdriver := d\<rparr>
         | (Inr (Some tables), d) \<Rightarrow>
             (case purchase_aircraft (shown e) (\<lambda>n. buy_ok e) (- 1) 1 d of
                (Some x, d1) \<Rightarrow> a\<lparr>webdriver := d1\<rparr>
              | (None, d1) \<Rightarrow> a\<lparr>webdriver := d1, purchases := purchases a + 1\<rparr>)))"

text \<open>
  One turn of the worker once \<open>purchases < max_airframes\<close> has been checked: outside a
  session a \<open>BrowserAgent\<close> is constructed and logs in (a failure is caught by the outer
  handler, which starts over); inside, one pass of the inner loop runs.
\<close>

definition agent_turn :: "string \<Rightarrow> pass \<Rightarrow> agent \<Rightarrow> agent" where
  "agent_turn atype e a =
     (if \<not> in_session a
      then a\<lparr>built := built a + 1, in_session := agent_login_ok e,
              webdriver := (webdriver a)\<lparr>table_listing := [], page_index := 0\<rparr>\<rparr>
      else agent_pass atype e a)"

text \<open>
  Both loops are \<open>while purchases < max_airframes\<close>, and leaving the inner one reaches
  the test of the outer one at once. The list of passes is the fuel: the result says
  whether the worker has returned or is still running when the list is used up.
\<close>

fun agent_loop :: "string \<Rightarrow> int \<Rightarrow> pass list \<Rightarrow> agent \<Rightarrow> bool \<times> agent" where
  "agent_loop atype max_airframes es a =
     (if \<not> purchases a < max_airframes then (True, a)
      else
        (case es of
           [] \<Rightarrow> (False, a)
         | e # rest \<Rightarrow> agent_loop atype max_airframes rest (agent_turn atype e a)))"

declare agent_loop.simps [simp del]

definition launch_agent :: "string \<Rightarrow> int \<Rightarrow> pass list \<Rightarrow> bool \<times> agent" where
  "launch_agent atype max_airframes es =
     agent_loop atype max_airframes es
       \<lparr>purchases = 0, built = 0, in_session = False,
        webdriver = \<lparr>history = [], table_listing = [], page_index = 0\<rparr>\<rparr>"

section \<open>Conditions on the environment\<close>

text \<open>
  The predicates below are not code of the program: they name, for the statements that
  follow, what the remote page holds.
\<close>

subsection \<open>Tables whose hours cannot be converted\<close>

text \<open>Some value of the hours column, in some table, is one that \<open>astype(int)\<close> raises on.\<close>

definition converts :: "hours_value \<Rightarrow> bool" where
  "converts c = (case astype_int c of Inl e \<Rightarrow> False | Inr h \<Rightarrow> True)"

definition malformed :: "page_table list \<Rightarrow> bool" where
  "malformed dfs = list_ex (list_ex (\<lambda>r. \<not> converts (hours_cell r))) dfs"

subsection \<open>The pager of the remote table\<close>

text \<open>
  The pager the program is written for: the last row of each result page holds a link to
  every other page, in page order, and none to the page shown.
\<close>

definition numeric_pager :: "listing \<Rightarrow> bool" where
  "numeric_pager L =
     list_all (\<lambda>(c, table). table \<noteq> [] \<and>
         anchors (last table) = map PageLink (filter (\<lambda>p. p \<noteq> c) [0..<length L]))
       (enumerate 0 L)"

subsection \<open>The page a saturation worker is shown\<close>

text \<open>
  The filter returns a data frame: the type is offered and a results table comes up.
\<close>

definition is_dataframe :: "site \<Rightarrow> string \<Rightarrow> bool" where
  "is_dataframe S atype =
     (case available_airframes S atype of None \<Rightarrow> False | Some v \<Rightarrow> listing_of S v \<noteq> [])"





section \<open>Properties\<close>

subsection \<open>Example inputs\<close>

text \<open>
  Inputs for the evaluated statements. A row of a result page with its hours, as text
  of an object column, and the link of its offer; a row whose hours cannot be read; a pager row with links to the given
  pages; a listing of three pages with 3, 3 and 1 offers; a site that offers the type
  A320 under the value 3, lists the given pages for it and shows the three pages before
  any filter; a row of the spreadsheet for the A320; a browser that has done nothing; a
  state of \<open>main\<close> with a session and nothing bought; turns of \<open>main\<close> on which every
  login and purchase succeeds, with one row to serve or none; a pass of a saturation
  worker on which login and navigation succeed.
\<close>

abbreviation offer :: "int \<Rightarrow> string \<Rightarrow> raw_row" where
  "offer h d \<equiv> \<lparr>hours_cell = Obj (Num h), descr = d, anchors = [LeaseLink]\<rparr>"


abbreviation pager :: "nat list \<Rightarrow> raw_row" where
  "pager targets \<equiv>
     \<lparr>hours_cell = Obj (Txt ''pages''), descr = ''pages'', anchors = map PageLink targets\<rparr>"

abbreviation three_pages :: listing where
  "three_pages \<equiv>
     [[offer 11 ''N1'', offer 12 ''N2'', offer 13 ''N3'', pager [1, 2]],
      [offer 21 ''N4'', offer 22 ''N5'', offer 23 ''N6'', pager [0, 2]],
      [offer 31 ''N7'', pager [0, 1]]]"

abbreviation a320_site :: "listing \<Rightarrow> site" where
  "a320_site ps \<equiv>
     \<lparr>options = [(''A320'', ''3'')], listing_of = (\<lambda>v. ps), unfiltered = three_pages\<rparr>"

abbreviation a320_rule :: "int \<Rightarrow> int \<Rightarrow> rule" where
  "a320_rule m h \<equiv> \<lparr>aircraft_type = ''A320'', maximum_airframes = Num m, maximum_hours = Num h\<rparr>"

abbreviation fresh_browser :: browser where
  "fresh_browser \<equiv> \<lparr>history = [], table_listing = [], page_index = 0\<rparr>"

abbreviation in_session_state :: mon_state where
  "in_session_state \<equiv>
     \<lparr>airframe_count = DefaultDict Map.empty, files = Map.empty, driver = fresh_browser,
      agents = 1, logged_in = True\<rparr>"

abbreviation serve :: "rule \<Rightarrow> site \<Rightarrow> turn" where
  "serve r S \<equiv>
     \<lparr>login_ok = True, desired_leases = [(r, S)], purchase_ok = (\<lambda>n. True), refresh_due = False\<rparr>"

abbreviation idle :: turn where
  "idle \<equiv> \<lparr>login_ok = True, desired_leases = [], purchase_ok = (\<lambda>n. True), refresh_due = False\<rparr>"

abbreviation buying :: "site \<Rightarrow> bool \<Rightarrow> pass" where
  "buying S b \<equiv> \<lparr>agent_login_ok = True, goto_ok = True, shown = S, buy_ok = b\<rparr>"

lemmas browser_eval =
  get_leases_def get_lease_page_def available_airframes_def get_table_def
  purchase_aircraft_def goto_page_def get_navbar_def page_source_def goto_leases_def
  py_index_def Let_def

lemmas monitor_eval =
  monitor_rule_def browser_eval
  build_table_index_def newindex_def pd_concat_def enumerate_eq_zip
  filter_hours_def increment_def dump_count_def
  startup_def load_count_def count_of_def

subsection \<open>A type the filter control does not offer\<close>

lemma available_airframes_None:
  "available_airframes S airframe = None \<longleftrightarrow> airframe \<notin> fst ` set (options S)"
  by (simp add: available_airframes_def map_of_eq_None_iff)

text \<open>
  C8. When the requested type is not among the labels the filter control offers, both
  filter operations return \<open>None\<close> and leave the browser as it was: nothing is added to
  what it has done, so no option is selected and the filter button is not clicked, and
  the page shown is the same. The callers take \<open>None\<close> as nothing to buy: the monitor
  loop goes on to the next row with no exception, and the saturation worker ends the pass
  with its count unchanged; both have done no more than open the leases page.
\<close>

theorem unknown_type_no_ui_mutation:
  "airframe \<notin> fst ` set (options S) \<Longrightarrow>
     get_leases S airframe d = (Inr None, d) \<and>
     get_lease_page S airframe d = (Inr None, d) \<and>
     monitor_rule srt ok S \<lparr>aircraft_type = airframe, maximum_airframes = m, maximum_hours = h\<rparr> s
       = (None, s\<lparr>driver := goto_leases S (driver s)\<rparr>) \<and>
     history (goto_leases S (driver s)) = history (driver s) @ [GotoLeases] \<and>
     agent_pass airframe \<lparr>agent_login_ok = l, goto_ok = True, shown = S, buy_ok = b\<rparr> a
       = a\<lparr>webdriver := goto_leases S (webdriver a)\<rparr>"
  by (simp add: get_leases_def get_lease_page_def monitor_rule_def agent_pass_def
      goto_leases_def available_airframes_None [symmetric])

theorem unknown_type_no_ui_mutation_witness:
  "''A320'' \<notin> fst ` set (options \<lparr>options = [(''B737'', ''7'')],
       listing_of = (\<lambda>v. three_pages), unfiltered = three_pages\<rparr>) \<and>
   get_leases \<lparr>options = [(''B737'', ''7'')],
       listing_of = (\<lambda>v. three_pages), unfiltered = three_pages\<rparr> ''A320''
       \<lparr>history = [GotoLeases], table_listing = three_pages, page_index = 0\<rparr>
     = (Inr None, \<lparr>history = [GotoLeases], table_listing = three_pages, page_index = 0\<rparr>) \<and>
   get_lease_page \<lparr>options = [(''B737'', ''7'')],
       listing_of = (\<lambda>v. three_pages), unfiltered = three_pages\<rparr> ''A320''
       \<lparr>history = [GotoLeases], table_listing = three_pages, page_index = 0\<rparr>
     = (Inr None, \<lparr>history = [GotoLeases], table_listing = three_pages, page_index = 0\<rparr>)"
  using unknown_type_no_ui_mutation
    [of "''A320''" "\<lparr>options = [(''B737'', ''7'')],
       listing_of = (\<lambda>v. three_pages), unfiltered = three_pages\<rparr>"
       "\<lparr>history = [GotoLeases], table_listing = three_pages, page_index = 0\<rparr>"]
  by simp

subsection \<open>A fresh counter store\<close>



subsection \<open>The count of a saturation worker\<close>

lemma agent_pass_mono: "purchases a \<le> purchases (agent_pass t e a)"
  by (simp add: agent_pass_def split: prod.splits sum.splits option.splits)

lemma agent_turn_mono: "purchases a \<le> purchases (agent_turn t e a)"
  by (simp add: agent_turn_def agent_pass_mono)

lemma agent_loop_mono: "purchases a \<le> purchases (snd (agent_loop t m es a))"
proof (induction es arbitrary: a)
  case Nil
  show ?case by (simp add: agent_loop.simps)
next
  case (Cons e es)
  have "purchases a \<le> purchases (agent_turn t e a)" by (rule agent_turn_mono)
  also have "\<dots> \<le> purchases (snd (agent_loop t m es (agent_turn t e a)))" by (rule Cons.IH)
  finally show ?case by (simp add: agent_loop.simps [of t m "e # es"])
qed

text \<open>
  C9. \<open>launch_agent\<close> sets \<open>purchases\<close> to 0 once, before its loops. A turn of the
  worker outside a session, where the outer handler has caught a failure and a new
  \<open>BrowserAgent\<close> is constructed and logs in, leaves \<open>purchases\<close> as it was; no
  turn lowers it, and over any run of the worker the count never falls below an earlier
  value. (Inside a session the inner handler catches every exception and keeps the
  driver.)
\<close>

theorem saturation_count_survives_restart:
  "(\<not> in_session a \<longrightarrow>
      purchases (agent_turn t e a) = purchases a \<and> built (agent_turn t e a) = built a + 1) \<and>
   purchases a \<le> purchases (agent_turn t e a) \<and>
   purchases a \<le> purchases (snd (agent_loop t m es a)) \<and>
   launch_agent t m []
     = (\<not> 0 < m, \<lparr>purchases = 0, built = 0, in_session = False, webdriver = fresh_browser\<rparr>)"
proof -
  have "\<not> in_session a \<longrightarrow>
      purchases (agent_turn t e a) = purchases a \<and> built (agent_turn t e a) = built a + 1"
    by (simp add: agent_turn_def)
  moreover have "launch_agent t m []
     = (\<not> 0 < m, \<lparr>purchases = 0, built = 0, in_session = False, webdriver = fresh_browser\<rparr>)"
    by (simp add: launch_agent_def agent_loop.simps)
  ultimately show ?thesis
    using agent_turn_mono agent_loop_mono by blast
qed

theorem saturation_count_survives_restart_witness:
  "\<not> in_session \<lparr>purchases = 0, built = 1, in_session = False, webdriver = fresh_browser\<rparr> \<and>
   purchases (agent_turn ''A320'' (buying (a320_site [[offer 10 ''N1'', pager []]]) True)
       \<lparr>purchases = 0, built = 1, in_session = False, webdriver = fresh_browser\<rparr>) = 0 \<and>
   built (agent_turn ''A320'' (buying (a320_site [[offer 10 ''N1'', pager []]]) True)
       \<lparr>purchases = 0, built = 1, in_session = False, webdriver = fresh_browser\<rparr>) = 2 \<and>
   purchases (snd (agent_loop ''A320'' 2
       [buying (a320_site [[offer 10 ''N1'', pager []]]) True,
        buying (a320_site [[offer 10 ''N1'', pager []]]) True]
       \<lparr>purchases = 0, built = 1, in_session = False, webdriver = fresh_browser\<rparr>)) = 1"
  using saturation_count_survives_restart
    [of "\<lparr>purchases = 0, built = 1, in_session = False, webdriver = fresh_browser\<rparr>" "''A320''"
        "buying (a320_site [[offer 10 ''N1'', pager []]]) True" 2
        "[buying (a320_site [[offer 10 ''N1'', pager []]]) True,
          buying (a320_site [[offer 10 ''N1'', pager []]]) True]"]
  by (simp add: agent_loop.simps agent_turn_def agent_pass_def browser_eval)

subsection \<open>The arguments of the purchase calls\<close>

lemma purchase_calls_append [simp]:
  "purchase_calls (xs @ ys) = purchase_calls xs @ purchase_calls ys"
  by (simp add: purchase_calls_def)

lemma purchase_calls_simps [simp]:
  "purchase_calls [] = []"
  "purchase_calls (PurchaseCall p r # xs) = PurchaseCall p r # purchase_calls xs"
  "purchase_calls (GotoLeases # xs) = purchase_calls xs"
  "purchase_calls (SelectByValue v # xs) = purchase_calls xs"
  "purchase_calls (ClickApplyFilter # xs) = purchase_calls xs"
  "purchase_calls (ClickPagerLink i # xs) = purchase_calls xs"
  "purchase_calls (ClickTableLink i # xs) = purchase_calls xs"
  by (simp_all add: purchase_calls_def)

lemma history_click [simp]: "history (click link d) = history d"
  by (cases link) simp_all

lemma goto_page_no_purchase:
  "purchase_calls (history (snd (goto_page pnum d))) = purchase_calls (history d)"
  by (simp add: goto_page_def Let_def split: sum.splits option.splits prod.splits)

lemma purchase_aircraft_calls:
  "purchase_calls (history (snd (purchase_aircraft S ok pnum rnum d)))
     = purchase_calls (history d) @ [PurchaseCall pnum rnum]"
proof -
  let ?d0 = "d\<lparr>history := history d @ [PurchaseCall pnum rnum]\<rparr>"
  let ?g = "if 0 \<le> pnum then goto_page pnum ?d0 else (None, ?d0)"
  have g: "purchase_calls (history (snd ?g)) = purchase_calls (history d) @ [PurchaseCall pnum rnum]"
    using goto_page_no_purchase [of pnum ?d0] by simp
  obtain x d1 where p: "?g = (x, d1)" by (cases ?g)
  with g have d1: "purchase_calls (history d1) = purchase_calls (history d) @ [PurchaseCall pnum rnum]"
    by simp
  show ?thesis
    unfolding purchase_aircraft_def p
    using d1 by (simp add: goto_leases_def Let_def split: option.splits sum.splits prod.splits)
qed

lemma purchase_each_calls:
  "\<exists>n\<le>length df.
     purchase_calls (history (driver (snd (purchase_each S ok t df s))))
       = purchase_calls (history (driver s))
         @ map (\<lambda>l. PurchaseCall (int (pagenum l) + 1) (int (rowidx l) + 1)) (take n df) \<and>
     (fst (purchase_each S ok t df s) = None \<longrightarrow> n = length df)"
proof (induction df arbitrary: s)
  case Nil
  show ?case by simp
next
  case (Cons l ls)
  let ?call = "PurchaseCall (int (pagenum l) + 1) (int (rowidx l) + 1)"
  obtain x d where p:
    "purchase_aircraft S ok (int (pagenum l) + 1) (int (rowidx l) + 1) (driver s) = (x, d)"
    by (cases "purchase_aircraft S ok (int (pagenum l) + 1) (int (rowidx l) + 1) (driver s)")
  from purchase_aircraft_calls [of S ok "int (pagenum l) + 1" "int (rowidx l) + 1" "driver s"] p
  have d: "purchase_calls (history d) = purchase_calls (history (driver s)) @ [?call]"
    by simp
  show ?case
  proof (cases x)
    case (Some e)
    with p have "purchase_each S ok t (l # ls) s = (Some e, s\<lparr>driver := d\<rparr>)" by simp
    with d show ?thesis by (intro exI [of _ 1]) simp
  next
    case None
    show ?thesis
    proof (cases "increment (airframe_count s) t")
      case (Inl e)
      with p None have "purchase_each S ok t (l # ls) s = (Some e, s\<lparr>driver := d\<rparr>)" by simp
      with d show ?thesis by (intro exI [of _ 1]) simp
    next
      case (Inr c)
      let ?s = "s\<lparr>driver := d, airframe_count := c, files := dump_count c (files s)\<rparr>"
      from p None Inr have step: "purchase_each S ok t (l # ls) s = purchase_each S ok t ls ?s"
        by simp
      from Cons.IH [of ?s] obtain n where n:
        "n \<le> length ls \<and>
         purchase_calls (history (driver (snd (purchase_each S ok t ls ?s))))
           = purchase_calls (history (driver ?s))
             @ map (\<lambda>l. PurchaseCall (int (pagenum l) + 1) (int (rowidx l) + 1)) (take n ls) \<and>
         (fst (purchase_each S ok t ls ?s) = None \<longrightarrow> n = length ls)" ..
      have "Suc n \<le> length (l # ls)" using n by simp
      moreover have "purchase_calls (history (driver (snd (purchase_each S ok t (l # ls) s))))
           = purchase_calls (history (driver s))
             @ map (\<lambda>l. PurchaseCall (int (pagenum l) + 1) (int (rowidx l) + 1))
                 (take (Suc n) (l # ls))"
        unfolding step using n d by simp
      moreover have "fst (purchase_each S ok t (l # ls) s) = None \<longrightarrow> Suc n = length (l # ls)"
        unfolding step using n by simp
      ultimately show ?thesis by (intro exI [of _ "Suc n"] conjI)
    qed
  qed
qed

text \<open>
  C7 (as the code has it). Every call the for loop of the monitor makes has the page
  number of its row plus one as the page argument and the row index plus one as the row
  argument, in the order of the frame; the loop calls for a prefix of the frame, and for
  all of it when no exception ends the loop.
\<close>

theorem purchase_arguments_one_based:
  "\<exists>n\<le>length df.
     purchase_calls (history (driver (snd (purchase_each S ok t df s))))
       = purchase_calls (history (driver s))
         @ map (\<lambda>l. PurchaseCall (int (pagenum l) + 1) (int (rowidx l) + 1)) (take n df) \<and>
     (fst (purchase_each S ok t df s) = None \<longrightarrow> n = length df)"
  by (rule purchase_each_calls)

theorem purchase_arguments_one_based_witness:
  "fst (purchase_each (a320_site three_pages) (\<lambda>n. True) ''A320''
          [\<lparr>pagenum = 0, rowidx = 0, hours = 11, info = ''N1''\<rparr>,
           \<lparr>pagenum = 1, rowidx = 0, hours = 21, info = ''N4''\<rparr>]
          (in_session_state\<lparr>driver := \<lparr>history = [], table_listing = three_pages,
             page_index = 2\<rparr>\<rparr>)) = None \<and>
   purchase_calls (history (driver (snd (purchase_each (a320_site three_pages) (\<lambda>n. True) ''A320''
          [\<lparr>pagenum = 0, rowidx = 0, hours = 11, info = ''N1''\<rparr>,
           \<lparr>pagenum = 1, rowidx = 0, hours = 21, info = ''N4''\<rparr>]
          (in_session_state\<lparr>driver := \<lparr>history = [], table_listing = three_pages,
             page_index = 2\<rparr>\<rparr>)))))
     = [PurchaseCall 1 1, PurchaseCall 2 1]"
proof -
  let ?s = "in_session_state\<lparr>driver := \<lparr>history = [], table_listing = three_pages,
             page_index = 2\<rparr>\<rparr>"
  let ?df = "[\<lparr>pagenum = 0, rowidx = 0, hours = 11, info = ''N1''\<rparr>,
              \<lparr>pagenum = 1, rowidx = 0, hours = 21, info = ''N4''\<rparr>]"
  have none: "fst (purchase_each (a320_site three_pages) (\<lambda>n. True) ''A320'' ?df ?s) = None"
    by (simp add: monitor_eval)
  from purchase_arguments_one_based [of ?df "a320_site three_pages" "\<lambda>n. True" "''A320''" ?s]
  obtain n where
    "purchase_calls (history (driver (snd (purchase_each (a320_site three_pages) (\<lambda>n. True)
        ''A320'' ?df ?s))))
      = purchase_calls (history (driver ?s))
        @ map (\<lambda>l. PurchaseCall (int (pagenum l) + 1) (int (rowidx l) + 1)) (take n ?df)"
    and "n = 2"
    using none by auto
  then show ?thesis using none by simp
qed

text \<open>
  The claim C7 as it is written fails: for the only row of a one-page listing, at page
  number 0 and row index 0, the call is \<open>purchase_aircraft(1, 1)\<close>, not
  \<open>purchase_aircraft(0, 1)\<close>.
\<close>

theorem purchase_page_argument_counterexample:
  "build_table_index [get_table [offer 10 ''N1'', pager []]]
     = Inr [\<lparr>pagenum = 0, rowidx = 0, hours = 10, info = ''N1''\<rparr>] \<and>
   purchase_calls (history (driver (snd (monitor_rule (sort_key hours) (\<lambda>n. True)
      (a320_site [[offer 10 ''N1'', pager []]]) (a320_rule 1 100) (startup Map.empty)))))
     = [PurchaseCall 1 1] \<and>
   purchase_calls (history (driver (snd (monitor_rule (sort_key hours) (\<lambda>n. True)
      (a320_site [[offer 10 ''N1'', pager []]]) (a320_rule 1 100) (startup Map.empty)))))
     \<noteq> [PurchaseCall 0 1]"
  by (simp add: monitor_eval quota_loop.simps)

subsection \<open>The quota in monitor mode\<close>

lemma quota_loop_at_quota:
  "getitem (airframe_count s) (aircraft_type r) = Inr (c, cnt) \<Longrightarrow>
   py_int (maximum_airframes r) = Inr m \<Longrightarrow> \<not> c < m \<Longrightarrow>
     quota_loop srt S ok r df s = (None, s\<lparr>airframe_count := cnt\<rparr>)"
  by (subst quota_loop.simps) simp

text \<open>
  The test at the head of the while loop: when the count is not below the maximum as the
  loop is reached, the loop returns at once and no purchase is called, whatever the frame
  holds.
\<close>

theorem quota_stop_at_entry:
  "getitem (airframe_count s) (aircraft_type r) = Inr (c, cnt) \<Longrightarrow>
   py_int (maximum_airframes r) = Inr m \<Longrightarrow> m \<le> c \<Longrightarrow>
     quota_loop srt S ok r df s = (None, s\<lparr>airframe_count := cnt\<rparr>) \<and>
     purchase_calls (history (driver (snd (quota_loop srt S ok r df s))))
       = purchase_calls (history (driver s))"
  using quota_loop_at_quota [of s r c cnt m srt S ok df] by simp

theorem quota_stop_at_entry_witness:
  "getitem (DefaultDict (Map.empty(''A320'' \<mapsto> 1))) ''A320''
     = Inr (1, DefaultDict (Map.empty(''A320'' \<mapsto> 1))) \<and>
   quota_loop (sort_key hours) (a320_site three_pages) (\<lambda>n. True) (a320_rule 1 100)
       [\<lparr>pagenum = 0, rowidx = 0, hours = 10, info = ''N1''\<rparr>]
       (in_session_state\<lparr>airframe_count := DefaultDict (Map.empty(''A320'' \<mapsto> 1))\<rparr>)
     = (None, in_session_state\<lparr>airframe_count := DefaultDict (Map.empty(''A320'' \<mapsto> 1))\<rparr>)"
  using quota_stop_at_entry
    [of "in_session_state\<lparr>airframe_count := DefaultDict (Map.empty(''A320'' \<mapsto> 1))\<rparr>"
        "a320_rule 1 100" 1 "DefaultDict (Map.empty(''A320'' \<mapsto> 1))" 1
        "sort_key hours" "a320_site three_pages" "\<lambda>n. True"
        "[\<lparr>pagenum = 0, rowidx = 0, hours = 10, info = ''N1''\<rparr>]"]
  by simp

text \<open>
  C2, evaluated on the code. The count is 0, the maximum is 1 and the listing has two
  rows under the hours limit: the for loop purchases both, and the count ends at 2. The
  test \<open>airframe_count[type] < maximum\<close> is made only before the for loop starts,
  not between its purchases.
\<close>

theorem quota_overrun_in_for_loop:
  "purchase_calls (history (driver (snd (monitor_rule (sort_key hours) (\<lambda>n. True)
      (a320_site [[offer 10 ''N1'', offer 20 ''N2'', pager []]]) (a320_rule 1 100)
      (startup Map.empty)))))
     = [PurchaseCall 1 1, PurchaseCall 1 2] \<and>
   count_of (airframe_count (snd (monitor_rule (sort_key hours) (\<lambda>n. True)
      (a320_site [[offer 10 ''N1'', offer 20 ''N2'', pager []]]) (a320_rule 1 100)
      (startup Map.empty)))) ''A320'' = 2"
  by (simp add: monitor_eval quota_loop.simps)

subsection \<open>What a restart reloads\<close>

lemma purchase_each_files:
  "k \<noteq> ''filename.pickle'' \<Longrightarrow> files (snd (purchase_each S ok t df s)) k = files s k"
proof (induction df arbitrary: s)
  case Nil
  show ?case by simp
next
  case (Cons l ls)
  show ?case
  proof (cases "purchase_aircraft S ok (int (pagenum l) + 1) (int (rowidx l) + 1) (driver s)")
    case (Pair x d)
    show ?thesis
    proof (cases x)
      case (Some e)
      with Pair show ?thesis by simp
    next
      case None
      show ?thesis
      proof (cases "increment (airframe_count s) t")
        case (Inl e)
        with Pair None show ?thesis by simp
      next
        case (Inr c)
        with Pair None Cons.prems show ?thesis
          by (simp add: Cons.IH dump_count_def)
      qed
    qed
  qed
qed

lemma quota_loop_files:
  "k \<noteq> ''filename.pickle'' \<Longrightarrow> files (snd (quota_loop srt S ok r df s)) k = files s k"
proof (induction srt S ok r df s rule: quota_loop.induct)
  case (1 srt S ok r df s)
  note k = "1.prems"
  show ?case
  proof (cases "getitem (airframe_count s) (aircraft_type r)")
    case (Inl e)
    then show ?thesis by (subst quota_loop.simps) simp
  next
    case (Inr p)
    obtain c cnt where p: "p = (c, cnt)" by (cases p)
    let ?s1 = "s\<lparr>airframe_count := cnt\<rparr>"
    show ?thesis
    proof (cases "py_int (maximum_airframes r)")
      case (Inl e)
      with Inr p show ?thesis by (subst quota_loop.simps) simp
    next
      case m: (Inr m)
      show ?thesis
      proof (cases "c < m")
        case False
        with Inr p m show ?thesis by (subst quota_loop.simps) simp
      next
        case True
        show ?thesis
        proof (cases "py_int (maximum_hours r)")
          case (Inl e)
          with Inr p m True show ?thesis by (subst quota_loop.simps) simp
        next
          case h: (Inr h)
          let ?df1 = "filter_hours h df"
          show ?thesis
          proof (cases "length ?df1 \<le> 0")
            case True
            with Inr p m \<open>c < m\<close> h show ?thesis by (subst quota_loop.simps) simp
          next
            case False
            let ?df2 = "srt ?df1"
            obtain x s2 where run: "purchase_each S ok (aircraft_type r) ?df2 ?s1 = (x, s2)"
              by (cases "purchase_each S ok (aircraft_type r) ?df2 ?s1")
            from purchase_each_files [OF k, of S ok "aircraft_type r" ?df2 ?s1] run
            have f2: "files s2 k = files s k" by simp
            show ?thesis
            proof (cases x)
              case (Some e)
              with Inr p m \<open>c < m\<close> h False run f2 show ?thesis
                by (subst quota_loop.simps) simp
            next
              case None
              from "1.IH" [OF Inr p [symmetric] refl m \<open>c < m\<close> h refl False refl run [symmetric] None k]
              have "files (snd (quota_loop srt S ok r ?df2 s2)) k = files s2 k" .
              with Inr p m \<open>c < m\<close> h False run None f2 show ?thesis
                by (subst quota_loop.simps) simp
            qed
          qed
        qed
      qed
    qed
  qed
qed

lemma monitor_rule_files:
  "k \<noteq> ''filename.pickle'' \<Longrightarrow> files (snd (monitor_rule srt ok S r s)) k = files s k"
  by (simp add: monitor_rule_def quota_loop_files
      split: prod.splits sum.splits option.splits)

lemma monitor_rules_files:
  "k \<noteq> ''filename.pickle'' \<Longrightarrow> files (snd (monitor_rules srt ok rs s)) k = files s k"
proof (induction rs arbitrary: s)
  case Nil
  show ?case by simp
next
  case (Cons p rs)
  obtain r S where p: "p = (r, S)" by (cases p)
  obtain x s1 where m: "monitor_rule srt ok S r s = (x, s1)"
    by (cases "monitor_rule srt ok S r s")
  from monitor_rule_files [OF Cons.prems, of srt ok S r s] m
  have "files s1 k = files s k" by simp
  with Cons.IH [OF Cons.prems, of s1] p m show ?case
    by (cases x) simp_all
qed

lemma main_turn_files:
  "k \<noteq> ''filename.pickle'' \<Longrightarrow> files (main_turn srt e s) k = files s k"
proof -
  assume k: "k \<noteq> ''filename.pickle''"
  obtain x s1 where m: "monitor_rules srt (purchase_ok e) (desired_leases e) s = (x, s1)"
    by (cases "monitor_rules srt (purchase_ok e) (desired_leases e) s")
  from monitor_rules_files [OF k, of srt "purchase_ok e" "desired_leases e" s] m
  have "files s1 k = files s k" by simp
  with m show ?thesis
    by (cases x) (simp_all add: main_turn_def)
qed

lemma main_loop_files:
  "k \<noteq> ''filename.pickle'' \<Longrightarrow> files (main_loop srt es s) k = files s k"
  by (induction es arbitrary: s) (simp_all add: main_turn_files)

lemma main_never_writes_count_pickle:
  "load_count (files (main srt fs es)) = load_count fs"
  by (simp add: main_def load_count_def main_loop_files startup_def)

text \<open>
  C1, on the code. Whatever \<open>main\<close> does, the store a restart would load is the one
  the files held before: purchases are written to \<open>filename.pickle\<close>, and start-up
  reads \<open>count.pickle\<close>. Evaluated: no file exists, the monitor logs in and purchases
  one A320. The count in memory is 1 and the store written to \<open>filename.pickle\<close>
  records 1, but the store a restart loads from these files counts 0.
\<close>

theorem restart_reloads_other_file:
  "load_count (files (main srt fs es)) = load_count fs \<and>
   count_of (airframe_count (main (sort_key hours) Map.empty
      [idle, serve (a320_rule 1 100) (a320_site [[offer 10 ''N1'', pager []]])])) ''A320'' = 1 \<and>
   map_option (\<lambda>c. count_of c ''A320'') (files (main (sort_key hours) Map.empty
      [idle, serve (a320_rule 1 100) (a320_site [[offer 10 ''N1'', pager []]])]) ''filename.pickle'') = Some 1 \<and>
   count_of (airframe_count (startup (files (main (sort_key hours) Map.empty
      [idle, serve (a320_rule 1 100) (a320_site [[offer 10 ''N1'', pager []]])])))) ''A320'' = 0"
  using main_never_writes_count_pickle [of srt fs es]
  by (simp add: main_def main_turn_def monitor_eval quota_loop.simps)

subsection \<open>A table whose hours cannot be converted\<close>

lemma zip_replicate_enumerate:
  "zip (replicate (length x) i) (enumerate 0 x) = map (\<lambda>(k, r). (i, k, r)) (enumerate 0 x)"
  by (simp add: zip_replicate1 case_prod_unfold)

lemma zip_index_from:
  "zip (concat (map (\<lambda>(i, x). replicate (length x) i) (enumerate n dfs)))
       (concat (map (enumerate 0) dfs))
   = concat (map (\<lambda>(i, x). map (\<lambda>(k, r). (i, k, r)) (enumerate 0 x)) (enumerate n dfs))"
proof (induction dfs arbitrary: n)
  case Nil
  show ?case by simp
next
  case (Cons x dfs)
  show ?case by (simp add: Cons.IH zip_replicate_enumerate)
qed

lemma zip_newindex:
  "zip (newindex dfs) (concat (map (enumerate 0) dfs))
   = concat (map (\<lambda>(i, x). map (\<lambda>(k, r). (i, k, r)) (enumerate 0 x)) (enumerate 0 dfs))"
  by (simp add: newindex_def zip_index_from)

lemma indexed_rows:
  "map (\<lambda>(p, k, r). r) (zip (newindex dfs) (concat (map (enumerate 0) dfs))) = concat dfs"
proof -
  have row: "map ((\<lambda>(p, k, r). r) \<circ> (\<lambda>(k, r). (i, k, r))) (enumerate 0 x) = x" for i and x :: page_table
    by (simp add: comp_def case_prod_unfold enumerate_eq_zip)
  have "map (\<lambda>(p, k, r). r)
          (concat (map (\<lambda>(i, x). map (\<lambda>(k, r). (i, k, r)) (enumerate 0 x)) (enumerate n dfs)))
        = concat dfs" for n
  proof (induction dfs arbitrary: n)
    case Nil
    show ?case by simp
  next
    case (Cons x dfs)
    show ?case using row [of n x] Cons.IH [of "Suc n"] by simp
  qed
  then show ?thesis by (simp add: zip_newindex)
qed











subsection \<open>Collecting the pages of a listing\<close>

lemma filter_neq_upt:
  "c < n \<Longrightarrow> filter (\<lambda>p. p \<noteq> c) [0..<n] = [0..<c] @ [Suc c..<n]"
proof -
  assume "c < n"
  then have "[0..<n] = [0..<c] @ c # [Suc c..<n]"
    by (metis le0 less_imp_le_nat upt_add_eq_append upt_conv_Cons le_add_diff_inverse)
  moreover have "filter (\<lambda>p. p \<noteq> c) [0..<c] = [0..<c]"
    by (rule filter_True) simp
  moreover have "filter (\<lambda>p. p \<noteq> c) [Suc c..<n] = [Suc c..<n]"
    by (rule filter_True) simp
  ultimately show ?thesis by simp
qed

lemma numeric_pager_nth:
  assumes "numeric_pager L" and "c < length L"
  shows "L ! c \<noteq> []"
    and "anchors (last (L ! c)) = map PageLink ([0..<c] @ [Suc c..<length L])"
proof -
  from assms(1) have
    "\<forall>n<length L. (case enumerate 0 L ! n of (c, table) \<Rightarrow> table \<noteq> [] \<and>
         anchors (last table) = map PageLink (filter (\<lambda>p. p \<noteq> c) [0..<length L]))"
    by (simp add: numeric_pager_def list_all_length)
  with assms(2) have "L ! c \<noteq> [] \<and>
      anchors (last (L ! c)) = map PageLink (filter (\<lambda>p. p \<noteq> c) [0..<length L])"
    by (auto simp: nth_enumerate_eq)
  with assms(2) show "L ! c \<noteq> []"
    and "anchors (last (L ! c)) = map PageLink ([0..<c] @ [Suc c..<length L])"
    by (simp_all add: filter_neq_upt)
qed

lemma numeric_pager_navbar:
  assumes "numeric_pager L" and "c < length L"
  shows "get_navbar \<lparr>history = H, table_listing = L, page_index = c\<rparr>
     = Inr (map PageLink ([0..<c] @ [Suc c..<length L]))"
  using assms numeric_pager_nth [OF assms]
  by (simp add: get_navbar_def page_source_def)

lemma collect_pages_numeric:
  assumes "numeric_pager L"
  shows "k < length L \<Longrightarrow>
     collect_pages [k..<length L - 1] tables \<lparr>history = H, table_listing = L, page_index = k\<rparr>
       = (Inr (tables @ map get_table (drop (Suc k) L)),
          \<lparr>history = H @ map ClickPagerLink [k..<length L - 1], table_listing = L,
           page_index = length L - 1\<rparr>)"
proof (induction "length L - 1 - k" arbitrary: k tables H)
  case 0
  then have "[k..<length L - 1] = []" and "drop (Suc k) L = []" and "k = length L - 1"
    by simp_all
  then show ?case by simp
next
  case (Suc n)
  then have k: "Suc k < length L" by simp
  then have upt: "[k..<length L - 1] = k # [Suc k..<length L - 1]"
    by (simp add: upt_conv_Cons)
  from k have drop: "drop (Suc k) L = L ! Suc k # drop (Suc (Suc k)) L"
    by (simp add: Cons_nth_drop_Suc)
  from Suc.hyps(2) have n: "n = length L - 1 - Suc k" by simp
  note ih = Suc.hyps(1) [OF n k, of "tables @ [get_table (L ! Suc k)]" "H @ [ClickPagerLink k]"]
  from k have k': "k < length L" by simp
  note nav = numeric_pager_navbar [OF assms k', of H]
  from k have tgt: "(map PageLink [0..<k] @ map PageLink [Suc k..<length L]) ! k = PageLink (Suc k)"
    by (simp add: nth_append)
  show ?case
    unfolding upt drop
    using nav tgt k ih by (simp add: page_source_def Let_def)
qed

lemma get_leases_numeric:
  assumes "available_airframes S airframe = Some v"
    and "listing_of S v \<noteq> []"
    and "numeric_pager (listing_of S v)"
  shows "get_leases S airframe d
     = (Inr (Some (map get_table (listing_of S v))),
        \<lparr>history = history d @ [SelectByValue v, ClickApplyFilter]
           @ map ClickPagerLink [0..<length (listing_of S v) - 1],
         table_listing = listing_of S v, page_index = length (listing_of S v) - 1\<rparr>)"
proof -
  let ?L = "listing_of S v"
  let ?H = "history d @ [SelectByValue v, ClickApplyFilter]"
  let ?d1 = "d\<lparr>history := ?H, table_listing := ?L, page_index := 0\<rparr>"
  from assms(2) obtain first others where p: "?L = first # others"
    by (cases ?L) auto
  then have z: "0 < length ?L" by simp
  have d1: "?d1 = \<lparr>history = ?H, table_listing = ?L, page_index = 0\<rparr>"
    by simp
  have src: "page_source ?d1 = Some first"
    using p by (simp add: page_source_def)
  have nav: "get_navbar ?d1 = Inr (map PageLink ([0..<0] @ [Suc 0..<length ?L]))"
    unfolding d1 using assms(3) z by (rule numeric_pager_navbar)
  have col: "collect_pages [0..<length ?L - 1] [get_table first] ?d1
        = (Inr ([get_table first] @ map get_table (drop (Suc 0) ?L)),
           \<lparr>history = ?H @ map ClickPagerLink [0..<length ?L - 1], table_listing = ?L,
            page_index = length ?L - 1\<rparr>)"
    unfolding d1 using assms(3) z by (rule collect_pages_numeric)
  have tabs: "[get_table first] @ map get_table (drop (Suc 0) ?L) = map get_table ?L"
    using p by simp
  show ?thesis
    unfolding get_leases_def assms(1) Let_def
    using src nav col tabs by simp
qed

lemma coerce_hours_rows:
  "coerce_hours xs = Inr df \<Longrightarrow>
     map (\<lambda>l. (pagenum l, rowidx l, info l)) df = map (\<lambda>(p, k, r). (p, k, descr r)) xs \<and>
     map (\<lambda>l. Inr (hours l)) df = map (\<lambda>(p, k, r). astype_int (hours_cell r)) xs"
proof (induction xs arbitrary: df rule: coerce_hours.induct)
  case 1
  then show ?case by simp
next
  case (2 p k r rest)
  then show ?case
    by (auto split: sum.splits)
qed

lemma coerce_hours_total:
  "\<not> list_ex (\<lambda>r. \<not> converts (hours_cell r)) (map (\<lambda>(p, k, r). r) xs) \<Longrightarrow>
     \<exists>df. coerce_hours xs = Inr df"
proof (induction xs rule: coerce_hours.induct)
  case 1
  show ?case by simp
next
  case (2 p k r rest)
  then show ?case
    by (auto simp: converts_def split: sum.splits)
qed

lemma build_table_index_total:
  assumes "dfs \<noteq> []" and "\<not> malformed dfs"
  shows "\<exists>df. build_table_index dfs = Inr df"
proof -
  from assms(2) have "\<not> list_ex (\<lambda>r. \<not> converts (hours_cell r)) (concat dfs)"
    by (auto simp: malformed_def list_ex_iff)
  then have "\<exists>df. coerce_hours (zip (newindex dfs) (concat (map (enumerate 0) dfs))) = Inr df"
    by (intro coerce_hours_total) (simp add: indexed_rows)
  with assms(1) show ?thesis
    by (simp add: build_table_index_def pd_concat_def)
qed

lemma enumerate_nth: "enumerate 0 xs = map (\<lambda>j. (j, xs ! j)) [0..<length xs]"
  by (rule nth_equalityI) (simp_all add: nth_enumerate_eq)

lemma indexed_positions:
  "map (\<lambda>(p, k, r). f p k r)
       (concat (map (\<lambda>(i, x). map (\<lambda>(k, r). (i, k, r)) (enumerate 0 x)) (enumerate 0 dfs)))
   = concat (map (\<lambda>i. map (\<lambda>j. f i j (dfs ! i ! j)) [0..<length (dfs ! i)]) [0..<length dfs])"
proof -
  have inner: "map (\<lambda>(p, k, r). f p k r) (map (\<lambda>(k, r). (i, k, r)) (enumerate 0 x))
      = map (\<lambda>j. f i j (x ! j)) [0..<length x]" for i x
    by (simp add: enumerate_nth comp_def)
  have "map (\<lambda>(p, k, r). f p k r)
       (concat (map (\<lambda>(i, x). map (\<lambda>(k, r). (i, k, r)) (enumerate 0 x)) (enumerate 0 dfs)))
     = concat (map (\<lambda>(i, x). map (\<lambda>j. f i j (x ! j)) [0..<length x]) (enumerate 0 dfs))"
    by (simp add: map_concat comp_def case_prod_unfold enumerate_nth)
  also have "\<dots> = concat (map (\<lambda>i. map (\<lambda>j. f i j (dfs ! i ! j)) [0..<length (dfs ! i)])
      [0..<length dfs])"
    by (simp add: enumerate_nth [of dfs] comp_def)
  finally show ?thesis .
qed

lemma build_table_index_rows:
  assumes "build_table_index dfs = Inr df"
  shows "map (\<lambda>l. (pagenum l, rowidx l, info l)) df
           = concat (map (\<lambda>i. map (\<lambda>j. (i, j, descr (dfs ! i ! j))) [0..<length (dfs ! i)])
               [0..<length dfs])"
    and "map (\<lambda>l. Inr (hours l)) df = map (\<lambda>r. astype_int (hours_cell r)) (concat dfs)"
proof -
  let ?xs = "zip (newindex dfs) (concat (map (enumerate 0) dfs))"
  from assms have c: "coerce_hours ?xs = Inr df"
    by (simp add: build_table_index_def pd_concat_def split: if_splits)
  note rows = coerce_hours_rows [OF c]
  from rows have "map (\<lambda>l. (pagenum l, rowidx l, info l)) df
      = map (\<lambda>(p, k, r). (p, k, descr r)) ?xs" by simp
  also have "\<dots> = concat (map (\<lambda>i. map (\<lambda>j. (i, j, descr (dfs ! i ! j))) [0..<length (dfs ! i)])
               [0..<length dfs])"
    unfolding zip_newindex by (rule indexed_positions)
  finally show "map (\<lambda>l. (pagenum l, rowidx l, info l)) df
           = concat (map (\<lambda>i. map (\<lambda>j. (i, j, descr (dfs ! i ! j))) [0..<length (dfs ! i)])
               [0..<length dfs])" .
  from rows have "map (\<lambda>l. Inr (hours l)) df = map (\<lambda>(p, k, r). astype_int (hours_cell r)) ?xs"
    by simp
  also have "\<dots> = map (\<lambda>r. astype_int (hours_cell r)) (map (\<lambda>(p, k, r). r) ?xs)"
    by (simp add: comp_def case_prod_unfold)
  also have "\<dots> = map (\<lambda>r. astype_int (hours_cell r)) (concat dfs)"
    by (simp only: indexed_rows)
  finally show "map (\<lambda>l. Inr (hours l)) df = map (\<lambda>r. astype_int (hours_cell r)) (concat dfs)" .
qed

text \<open>
  C6 (as the code has it). For a type the filter offers, with a listing of at least one
  page whose pager row links on every page every other page, in page order, and not the
  page shown, \<open>get_leases\<close> returns the table of every result page once, in page
  order, having clicked one pager link for each page after the first. When the hours can
  be converted, \<open>build_table_index\<close> succeeds; its rows are the rows of the tables in
  that order, row \<open>j\<close> of table \<open>i\<close> (both counted from 0) with page number \<open>i\<close>
  and row index \<open>j\<close>, and with the hours as \<open>astype(int)\<close> converts them.
\<close>

theorem pages_collected_once_in_order:
  "available_airframes S airframe = Some v \<Longrightarrow>
   listing_of S v \<noteq> [] \<Longrightarrow>
   numeric_pager (listing_of S v) \<Longrightarrow>
     get_leases S airframe d
       = (Inr (Some (map get_table (listing_of S v))),
          \<lparr>history = history d @ [SelectByValue v, ClickApplyFilter]
             @ map ClickPagerLink [0..<length (listing_of S v) - 1],
           table_listing = listing_of S v, page_index = length (listing_of S v) - 1\<rparr>) \<and>
     (\<not> malformed (map get_table (listing_of S v)) \<longrightarrow>
        (\<exists>df. build_table_index (map get_table (listing_of S v)) = Inr df)) \<and>
     (\<forall>df. build_table_index (map get_table (listing_of S v)) = Inr df \<longrightarrow>
        map (\<lambda>l. (pagenum l, rowidx l, info l)) df
          = concat (map (\<lambda>i. map (\<lambda>j. (i, j, descr (get_table (listing_of S v ! i) ! j)))
                [0..<length (get_table (listing_of S v ! i))])
              [0..<length (listing_of S v)]) \<and>
        map (\<lambda>l. Inr (hours l)) df
          = map (\<lambda>r. astype_int (hours_cell r)) (concat (map get_table (listing_of S v))))"
proof -
  assume a: "available_airframes S airframe = Some v"
    and ne: "listing_of S v \<noteq> []" and np: "numeric_pager (listing_of S v)"
  let ?tables = "map get_table (listing_of S v)"
  from ne have tne: "?tables \<noteq> []" by simp
  have total: "\<not> malformed ?tables \<longrightarrow> (\<exists>df. build_table_index ?tables = Inr df)"
    using build_table_index_total [OF tne] by blast
  have rows: "map (\<lambda>l. (pagenum l, rowidx l, info l)) df
          = concat (map (\<lambda>i. map (\<lambda>j. (i, j, descr (get_table (listing_of S v ! i) ! j)))
                [0..<length (get_table (listing_of S v ! i))])
              [0..<length (listing_of S v)]) \<and>
        map (\<lambda>l. Inr (hours l)) df = map (\<lambda>r. astype_int (hours_cell r)) (concat ?tables)"
    if b: "build_table_index ?tables = Inr df" for df
  proof -
    have "concat (map (\<lambda>i. map (\<lambda>j. (i, j, descr (?tables ! i ! j))) [0..<length (?tables ! i)])
              [0..<length ?tables])
        = concat (map (\<lambda>i. map (\<lambda>j. (i, j, descr (get_table (listing_of S v ! i) ! j)))
                [0..<length (get_table (listing_of S v ! i))])
              [0..<length (listing_of S v)])"
      by (intro arg_cong [where f = concat] map_cong) simp_all
    with build_table_index_rows [OF b] show ?thesis by simp
  qed
  from get_leases_numeric [OF a ne np, of d] total rows show ?thesis by blast
qed

theorem pages_collected_once_in_order_witness:
  "available_airframes (a320_site three_pages) ''A320'' = Some ''3'' \<and>
   listing_of (a320_site three_pages) ''3'' \<noteq> [] \<and>
   numeric_pager (listing_of (a320_site three_pages) ''3'') \<and>
   get_leases (a320_site three_pages) ''A320'' fresh_browser
     = (Inr (Some [[offer 11 ''N1'', offer 12 ''N2'', offer 13 ''N3''],
                   [offer 21 ''N4'', offer 22 ''N5'', offer 23 ''N6''],
                   [offer 31 ''N7'']]),
        \<lparr>history = [SelectByValue ''3'', ClickApplyFilter, ClickPagerLink 0, ClickPagerLink 1],
         table_listing = three_pages, page_index = 2\<rparr>) \<and>
   build_table_index [[offer 11 ''N1'', offer 12 ''N2'', offer 13 ''N3''],
                      [offer 21 ''N4'', offer 22 ''N5'', offer 23 ''N6''],
                      [offer 31 ''N7'']]
     = Inr [\<lparr>pagenum = 0, rowidx = 0, hours = 11, info = ''N1''\<rparr>,
            \<lparr>pagenum = 0, rowidx = 1, hours = 12, info = ''N2''\<rparr>,
            \<lparr>pagenum = 0, rowidx = 2, hours = 13, info = ''N3''\<rparr>,
            \<lparr>pagenum = 1, rowidx = 0, hours = 21, info = ''N4''\<rparr>,
            \<lparr>pagenum = 1, rowidx = 1, hours = 22, info = ''N5''\<rparr>,
            \<lparr>pagenum = 1, rowidx = 2, hours = 23, info = ''N6''\<rparr>,
            \<lparr>pagenum = 2, rowidx = 0, hours = 31, info = ''N7''\<rparr>]"
proof -
  have a: "available_airframes (a320_site three_pages) ''A320'' = Some ''3''"
    by (simp add: available_airframes_def)
  have p: "listing_of (a320_site three_pages) ''3'' \<noteq> []" by simp
  have n: "numeric_pager (listing_of (a320_site three_pages) ''3'')"
    by (simp add: numeric_pager_def)
  have g: "get_leases (a320_site three_pages) ''A320'' fresh_browser
     = (Inr (Some [[offer 11 ''N1'', offer 12 ''N2'', offer 13 ''N3''],
                   [offer 21 ''N4'', offer 22 ''N5'', offer 23 ''N6''],
                   [offer 31 ''N7'']]),
        \<lparr>history = [SelectByValue ''3'', ClickApplyFilter, ClickPagerLink 0, ClickPagerLink 1],
         table_listing = three_pages, page_index = 2\<rparr>)"
    using pages_collected_once_in_order [OF a p n, of fresh_browser]
    by (simp add: get_table_def upt_rec [of 0])
  have b: "build_table_index [[offer 11 ''N1'', offer 12 ''N2'', offer 13 ''N3''],
                      [offer 21 ''N4'', offer 22 ''N5'', offer 23 ''N6''],
                      [offer 31 ''N7'']]
     = Inr [\<lparr>pagenum = 0, rowidx = 0, hours = 11, info = ''N1''\<rparr>,
            \<lparr>pagenum = 0, rowidx = 1, hours = 12, info = ''N2''\<rparr>,
            \<lparr>pagenum = 0, rowidx = 2, hours = 13, info = ''N3''\<rparr>,
            \<lparr>pagenum = 1, rowidx = 0, hours = 21, info = ''N4''\<rparr>,
            \<lparr>pagenum = 1, rowidx = 1, hours = 22, info = ''N5''\<rparr>,
            \<lparr>pagenum = 1, rowidx = 2, hours = 23, info = ''N6''\<rparr>,
            \<lparr>pagenum = 2, rowidx = 0, hours = 31, info = ''N7''\<rparr>]"
    by (simp add: build_table_index_def newindex_def pd_concat_def enumerate_eq_zip)
  from a p n g b show ?thesis by (intro conjI)
qed

text \<open>
  The claim C6 as it is written fails: whether each page is collected once depends on the
  pager. With a pager row that links every page, the page shown among them, the first
  page of a listing of 3, 3 and 1 rows is collected twice: four tables and ten rows come
  back, with the page numbers 0 to 3.
\<close>

theorem page_collected_twice_counterexample:
  "fst (get_leases
      (a320_site
        [[offer 11 ''N1'', offer 12 ''N2'', offer 13 ''N3'', pager [0, 1, 2]],
         [offer 21 ''N4'', offer 22 ''N5'', offer 23 ''N6'', pager [0, 1, 2]],
         [offer 31 ''N7'', pager [0, 1, 2]]])
      ''A320'' fresh_browser)
     = Inr (Some [[offer 11 ''N1'', offer 12 ''N2'', offer 13 ''N3''],
                  [offer 11 ''N1'', offer 12 ''N2'', offer 13 ''N3''],
                  [offer 21 ''N4'', offer 22 ''N5'', offer 23 ''N6''],
                  [offer 31 ''N7'']]) \<and>
   map_sum id (map pagenum)
      (build_table_index [[offer 11 ''N1'', offer 12 ''N2'', offer 13 ''N3''],
                  [offer 11 ''N1'', offer 12 ''N2'', offer 13 ''N3''],
                  [offer 21 ''N4'', offer 22 ''N5'', offer 23 ''N6''],
                  [offer 31 ''N7'']])
     = Inr [0, 0, 0, 1, 1, 1, 2, 2, 2, 3]"
  by (simp add: browser_eval build_table_index_def newindex_def pd_concat_def enumerate_eq_zip)

subsection \<open>The passes of a saturation worker\<close>

lemma get_lease_page_history:
  "purchase_calls (history (snd (get_lease_page S atype d))) = purchase_calls (history d)"
  by (simp add: get_lease_page_def page_source_def Let_def split: option.splits)

lemma get_lease_page_dataframe:
  "(\<exists>table. fst (get_lease_page S atype d) = Inr (Some table)) = is_dataframe S atype"
  by (simp add: get_lease_page_def is_dataframe_def page_source_def Let_def
      split: option.splits)


















end
